theory Spec2Isabelle
  imports Main "HOL-Library.Word"
begin

section \<open>The bitstream cache mixin of torii\<close>

text \<open>
  The development follows \<^verbatim>\<open>torii/mixins/bitstream_cache.py\<close>. Python names that begin
  with an underscore lose it here (\<^verbatim>\<open>_decompose_digest\<close> is \<open>decompose_digest\<close>).
\<close>

subsection \<open>Strings and slices\<close>

text \<open>
  Python's \<^verbatim>\<open>s[a:b]\<close> with \<open>0 \<le> a \<le> b\<close>: the elements from index \<open>a\<close> up to, not
  including, index \<open>b\<close>, clipped to the length of \<open>s\<close>. A slice never raises.
\<close>

definition slice :: "'a list \<Rightarrow> nat \<Rightarrow> nat \<Rightarrow> 'a list" where
  "slice xs a b = take (b - a) (drop a xs)"

definition is_hex :: "char \<Rightarrow> bool" where
  "is_hex c = (c \<in> set ''0123456789abcdefABCDEF'')"

definition decompose_digest :: "string \<Rightarrow> string list" where
  "decompose_digest digest =
     map (\<lambda>i. slice digest (i * 2) ((i * 2) + 2)) [0..<length digest div 2]"

subsection \<open>Hexadecimal formatting\<close>

text \<open>
  \<open>fmt_02x n\<close> is Python's \<^verbatim>\<open>f'{n:02x}'\<close>: the lowercase hexadecimal digits of \<open>n\<close>,
  padded with zeros on the left to at least two characters. \<open>hex\<close> is \<^verbatim>\<open>bytes.hex()\<close>:
  two lowercase digits for every byte.
\<close>

definition hexdigit :: "nat \<Rightarrow> char" where
  "hexdigit n = ''0123456789abcdef'' ! n"

fun hex_digits :: "nat \<Rightarrow> string" where
  "hex_digits n = (if n < 16 then [hexdigit n] else hex_digits (n div 16) @ [hexdigit (n mod 16)])"

definition fmt_02x :: "nat \<Rightarrow> string" where
  "fmt_02x n = (let s = hex_digits n in replicate (2 - length s) (CHR ''0'') @ s)"

type_synonym bytes = "8 word list"

definition hex :: "bytes \<Rightarrow> string" where
  "hex bs = concat (map (\<lambda>b. fmt_02x (unat b)) bs)"

subsection \<open>Errors\<close>

text \<open>
  The exceptions that can leave the code: Python's own, \<open>MissingArtifact\<close> for a
  build product that is not there, and \<open>Failure\<close> for whatever an external collaborator
  (the elaboration, the executor of the build plan) raises.
\<close>

datatype error =
    AttributeError
  | FileExistsError
  | FileNotFoundError
  | NotADirectoryError
  | IsADirectoryError
  | MissingArtifact
  | Failure string

subsection \<open>Paths and the file system\<close>

text \<open>
  A path is the list of its components below the root of the file system, so \<open>[]\<close> is
  the root directory itself. \<open>joinpath p s\<close> is \<^verbatim>\<open>p / s\<close> for a segment \<open>s\<close> that is
  a single name: the segments this code joins are the labels \<^verbatim>\<open>00\<close> to \<^verbatim>\<open>ff\<close>, the
  tokens of a digest and file names made of a digest and a suffix.

  The file system holds the set of directories and the contents of the regular files.
  Permissions, links and a full disk are not part of it: a directory or file can be
  created wherever the parent directory exists.
\<close>

type_synonym path = "string list"

definition joinpath :: "path \<Rightarrow> string \<Rightarrow> path" where
  "joinpath p s = p @ [s]"

definition parent :: "path \<Rightarrow> path" where
  "parent p = butlast p"

record filesystem =
  dirs :: "path set"
  files :: "path \<rightharpoonup> bytes"

definition is_dir :: "filesystem \<Rightarrow> path \<Rightarrow> bool" where
  "is_dir fs p = (p = [] \<or> p \<in> dirs fs)"

definition is_file :: "filesystem \<Rightarrow> path \<Rightarrow> bool" where
  "is_file fs p = (\<not> is_dir fs p \<and> files fs p \<noteq> None)"

definition path_exists :: "filesystem \<Rightarrow> path \<Rightarrow> bool" where
  "path_exists fs p = (is_dir fs p \<or> is_file fs p)"

text \<open>What is wrong with a path whose parent is no directory.\<close>

definition parent_error :: "filesystem \<Rightarrow> path \<Rightarrow> error" where
  "parent_error fs p = (if path_exists fs (parent p) then NotADirectoryError else FileNotFoundError)"

text \<open>\<^verbatim>\<open>Path.mkdir()\<close> with its defaults: no parents are created and an existing path is an error.\<close>

definition mkdir :: "path \<Rightarrow> filesystem \<Rightarrow> (error + unit) \<times> filesystem" where
  "mkdir p fs =
     (if path_exists fs p then (Inl FileExistsError, fs)
      else if \<not> is_dir fs (parent p) then (Inl (parent_error fs p), fs)
      else (Inr (), fs\<lparr>dirs := insert p (dirs fs)\<rparr>))"

text \<open>\<^verbatim>\<open>Path.open('wb')\<close>: the file is created, or emptied when it is there already.\<close>

definition open_wb :: "path \<Rightarrow> filesystem \<Rightarrow> (error + unit) \<times> filesystem" where
  "open_wb p fs =
     (if is_dir fs p then (Inl IsADirectoryError, fs)
      else if \<not> is_dir fs (parent p) then (Inl (parent_error fs p), fs)
      else (Inr (), fs\<lparr>files := (files fs)(p \<mapsto> [])\<rparr>))"

text \<open>\<^verbatim>\<open>write\<close> on a file opened by \<open>open_wb\<close>: the bytes are appended.\<close>

definition write_bytes :: "path \<Rightarrow> bytes \<Rightarrow> filesystem \<Rightarrow> filesystem" where
  "write_bytes p data fs =
     fs\<lparr>files := (files fs)(p \<mapsto> (case files fs p of None \<Rightarrow> [] | Some old \<Rightarrow> old) @ data)\<rparr>"

text \<open>
  A \<^verbatim>\<open>for\<close> loop whose body changes a state and may raise: the first error ends the loop.
\<close>

fun for_loop :: "'a list \<Rightarrow> ('a \<Rightarrow> 's \<Rightarrow> (error + unit) \<times> 's) \<Rightarrow> 's \<Rightarrow> (error + unit) \<times> 's" where
  "for_loop [] body s = (Inr (), s)"
| "for_loop (x # xs) body s =
     (case body x s of
        (Inl e, s') \<Rightarrow> (Inl e, s')
      | (Inr _, s') \<Rightarrow> for_loop xs body s')"

subsection \<open>The instance\<close>

text \<open>
  The attributes an instance of \<^verbatim>\<open>BitstreamCacheMixin\<close> has: \<open>u_cache_root\<close>,
  \<open>u_cache_depth\<close> and \<open>u_cache_rtl\<close> are \<^verbatim>\<open>_cache_root\<close>, \<^verbatim>\<open>_cache_depth\<close> and
  \<^verbatim>\<open>_cache_rtl\<close>, set by \<^verbatim>\<open>__init__\<close>. The depth is a natural number: the only value the
  source assigns to it is 1, and its property has no setter.

  The methods also read \<^verbatim>\<open>self.cache_dir\<close> and \<^verbatim>\<open>self.tree_depth\<close>, which the mixin
  defines nowhere. Whether such a read succeeds rests on the other classes of the
  instance, which are not part of the source: the fields \<open>cache_dir\<close> and \<open>tree_depth\<close>
  hold what they provide, and \<open>None\<close> where no class defines the attribute, so that
  the read raises \<^verbatim>\<open>AttributeError\<close>.
\<close>

record platform =
  u_cache_root :: path
  u_cache_depth :: nat
  u_cache_rtl :: bool
  cache_dir :: "path option"
  tree_depth :: "int option"

text \<open>
  \<^verbatim>\<open>__init__\<close> on a class that adds neither attribute; \<open>cwd\<close> is \<^verbatim>\<open>Path.cwd()\<close>.
\<close>

definition init :: "path \<Rightarrow> platform" where
  "init cwd =
     \<lparr>u_cache_root = joinpath cwd ''.torii_cache'', u_cache_depth = 1, u_cache_rtl = True,
      cache_dir = None, tree_depth = None\<rparr>"

definition cache_rtl :: "platform \<Rightarrow> bool" where
  "cache_rtl self = u_cache_rtl self"

definition set_cache_rtl :: "platform \<Rightarrow> bool \<Rightarrow> platform" where
  "set_cache_rtl self cache = self\<lparr>u_cache_rtl := cache\<rparr>"

definition cache_depth :: "platform \<Rightarrow> nat" where
  "cache_depth self = u_cache_depth self"

definition set_cache_root :: "platform \<Rightarrow> path \<Rightarrow> platform" where
  "set_cache_root self dir = self\<lparr>u_cache_root := dir\<rparr>"

subsection \<open>The cache tree\<close>

fun init_dir :: "path \<Rightarrow> nat \<Rightarrow> filesystem \<Rightarrow> (error + unit) \<times> filesystem" where
  "init_dir root 0 fs = (Inr (), fs)"
| "init_dir root (Suc depth) fs =
     for_loop [0..<256]
       (\<lambda>i fs.
          let cache_stub = joinpath root (fmt_02x i) in
          if \<not> path_exists fs cache_stub then
            (case mkdir cache_stub fs of
               (Inl e, fs') \<Rightarrow> (Inl e, fs')
             | (Inr _, fs') \<Rightarrow> init_dir cache_stub depth fs')
          else (Inr (), fs))
       fs"

definition init_cache_dir :: "platform \<Rightarrow> filesystem \<Rightarrow> (error + unit) \<times> filesystem" where
  "init_cache_dir self fs =
     (if path_exists fs (u_cache_root self) then (Inr (), fs)
      else
        (case mkdir (u_cache_root self) fs of
           (Inl e, fs') \<Rightarrow> (Inl e, fs')
         | (Inr _, fs') \<Rightarrow> init_dir (u_cache_root self) (cache_depth self) fs'))"

text \<open>The property \<^verbatim>\<open>cache_root\<close>: it initialises the tree, then returns the root.\<close>

definition cache_root :: "platform \<Rightarrow> filesystem \<Rightarrow> (error + path) \<times> filesystem" where
  "cache_root self fs =
     (case init_cache_dir self fs of
        (Inl e, fs') \<Rightarrow> (Inl e, fs')
      | (Inr _, fs') \<Rightarrow> (Inr (u_cache_root self), fs'))"

text \<open>Python's \<^verbatim>\<open>xs[:k]\<close>; a negative \<open>k\<close> counts from the end.\<close>

definition slice_to :: "'a list \<Rightarrow> int \<Rightarrow> 'a list" where
  "slice_to xs k = (if k < 0 then take (nat (int (length xs) + k)) xs else take (nat k) xs)"

text \<open>
  \<^verbatim>\<open>_get_cache_dir\<close>. Python evaluates \<^verbatim>\<open>self.cache_root\<close> first (the receiver of
  \<^verbatim>\<open>joinpath\<close>), then the arguments: the decomposition, then \<^verbatim>\<open>self.tree_depth\<close>.
\<close>

definition get_cache_dir :: "platform \<Rightarrow> string \<Rightarrow> filesystem \<Rightarrow> (error + path) \<times> filesystem" where
  "get_cache_dir self digest fs =
     (case cache_root self fs of
        (Inl e, fs') \<Rightarrow> (Inl e, fs')
      | (Inr root, fs') \<Rightarrow>
          (let tokens = decompose_digest digest in
           case tree_depth self of
             None \<Rightarrow> (Inl AttributeError, fs')
           | Some k \<Rightarrow> (Inr (foldl joinpath root (slice_to tokens k)), fs')))"

subsection \<open>Build products\<close>

text \<open>
  Modelled from the spec: \<^verbatim>\<open>LocalBuildProducts\<close> (module \<^verbatim>\<open>torii.build.run\<close>) is not
  part of the source. It is the spec's artifact set: a handle on a directory that gives
  the bytes of an artifact by its name, and fails with \<open>MissingArtifact\<close> when there is
  no such artifact.
\<close>

datatype products = LocalBuildProducts path

fun products_get :: "products \<Rightarrow> string \<Rightarrow> filesystem \<Rightarrow> error + bytes" where
  "products_get (LocalBuildProducts root) filename fs =
     (case files fs (joinpath root filename) of
        None \<Rightarrow> Inl MissingArtifact
      | Some data \<Rightarrow> Inr data)"

subsection \<open>Lookup and store\<close>

text \<open>The dictionary a hit returns, with its keys \<^verbatim>\<open>name\<close> and \<^verbatim>\<open>products\<close>.\<close>

record cached =
  cached_name :: string
  cached_products :: products

definition get_from_cache ::
  "platform \<Rightarrow> string \<Rightarrow> filesystem \<Rightarrow> (error + cached option) \<times> filesystem" where
  "get_from_cache self digest fs =
     (let bitstream_name = digest @ ''.bin'' in
      case cache_dir self of
        None \<Rightarrow> (Inl AttributeError, fs)
      | Some dir \<Rightarrow>
          (let bitstream_file = joinpath dir bitstream_name in
           if \<not> path_exists fs bitstream_file then (Inr None, fs)
           else (Inr (Some \<lparr>cached_name = bitstream_name,
                             cached_products = LocalBuildProducts dir\<rparr>), fs)))"

text \<open>
  \<^verbatim>\<open>LZMACompressor\<close> is Python's: \<open>compress data\<close> is what a fresh compressor returns
  for \<open>data\<close>, and \<open>flush data\<close> what its \<^verbatim>\<open>flush()\<close> returns after that.
\<close>

record lzma =
  compress :: "bytes \<Rightarrow> bytes"
  flush :: "bytes \<Rightarrow> bytes"

text \<open>
  \<^verbatim>\<open>_store_to_cache\<close>. Each \<^verbatim>\<open>with\<close> statement opens its file before the body asks the
  products for the bytes to write.
\<close>

definition store_to_cache ::
  "lzma \<Rightarrow> platform \<Rightarrow> string \<Rightarrow> products \<Rightarrow> string \<Rightarrow> filesystem \<Rightarrow> (error + unit) \<times> filesystem" where
  "store_to_cache lzma_cpr self digest prods name fs =
     (let bitstream_name = digest @ ''.bin'' in
      case cache_dir self of
        None \<Rightarrow> (Inl AttributeError, fs)
      | Some dir \<Rightarrow>
          (let bitstream_file = joinpath dir bitstream_name in
           case open_wb bitstream_file fs of
             (Inl e, fs1) \<Rightarrow> (Inl e, fs1)
           | (Inr _, fs1) \<Rightarrow>
               (case products_get prods (name @ ''.bin'') fs1 of
                  Inl e \<Rightarrow> (Inl e, fs1)
                | Inr bitstream \<Rightarrow>
                    (let fs2 = write_bytes bitstream_file bitstream fs1 in
                     if cache_rtl self then
                       (let rtl_name = digest @ ''.debug.v.xz'';
                            rtl_file = joinpath dir rtl_name in
                        case open_wb rtl_file fs2 of
                          (Inl e, fs3) \<Rightarrow> (Inl e, fs3)
                        | (Inr _, fs3) \<Rightarrow>
                            (case products_get prods (name @ ''.debug.v'') fs3 of
                               Inl e \<Rightarrow> (Inl e, fs3)
                             | Inr rtl \<Rightarrow>
                                 (Inr (),
                                  write_bytes rtl_file (flush lzma_cpr rtl)
                                    (write_bytes rtl_file (compress lzma_cpr rtl) fs3))))
                     else (Inr (), fs2)))))"

subsection \<open>The build\<close>

text \<open>
  A build plan, as far as the mixin uses it: \<open>plan_digest p size\<close> is
  \<^verbatim>\<open>p.digest(size = size)\<close>, and \<open>plan_execute_local p build_dir\<close> is the external
  executor \<^verbatim>\<open>p.execute_local(build_dir)\<close>, which works on the file system and returns
  the products or raises.
\<close>

record plan =
  plan_digest :: "nat \<Rightarrow> bytes"
  plan_execute_local :: "string \<Rightarrow> filesystem \<Rightarrow> (error + products) \<times> filesystem"

datatype built = Plan plan | Products products

text \<open>
  The state of a build: the file system and the number of times the executor has been
  invoked. The collaborators are given the file system only.
\<close>

record world =
  world_fs :: filesystem
  executions :: nat

text \<open>
  \<^verbatim>\<open>_build_elaboratable\<close>. \<open>super_build name build_dir\<close> is the call of \<^verbatim>\<open>super().build\<close>
  with \<^verbatim>\<open>do_build = False\<close>: the elaboration, which returns the plan or raises.
  \<open>skip_cache\<close> is \<^verbatim>\<open>kwargs.get('skip_cache', False)\<close>. The branch taken when
  \<^verbatim>\<open>cached is None or skip_cache\<close> is \<open>fresh\<close>; the other one returns the cached entry.
\<close>

definition build_elaboratable ::
  "lzma \<Rightarrow> (string \<Rightarrow> string \<Rightarrow> filesystem \<Rightarrow> (error + plan) \<times> filesystem) \<Rightarrow>
   platform \<Rightarrow> string \<Rightarrow> string \<Rightarrow> bool \<Rightarrow> bool \<Rightarrow> world \<Rightarrow> (error + string \<times> built) \<times> world" where
  "build_elaboratable lzma_cpr super_build self name build_dir do_build skip_cache w =
     (case super_build name build_dir (world_fs w) of
        (Inl e, fs0) \<Rightarrow> (Inl e, w\<lparr>world_fs := fs0\<rparr>)
      | (Inr plan, fs0) \<Rightarrow>
          if \<not> do_build then (Inr (name, Plan plan), w\<lparr>world_fs := fs0\<rparr>)
          else
            (let digest = hex (plan_digest plan 32) in
             case get_from_cache self digest fs0 of
               (Inl e, fs1) \<Rightarrow> (Inl e, w\<lparr>world_fs := fs1\<rparr>)
             | (Inr cached, fs1) \<Rightarrow>
                 (let fresh =
                    (case plan_execute_local plan build_dir fs1 of
                       (Inl e, fs2) \<Rightarrow>
                         (Inl e, w\<lparr>world_fs := fs2, executions := executions w + 1\<rparr>)
                     | (Inr prods, fs2) \<Rightarrow>
                         if \<not> skip_cache then
                           (case store_to_cache lzma_cpr self digest prods name fs2 of
                              (Inl e, fs3) \<Rightarrow>
                                (Inl e, w\<lparr>world_fs := fs3, executions := executions w + 1\<rparr>)
                            | (Inr _, fs3) \<Rightarrow>
                                (Inr (name, Products prods),
                                 w\<lparr>world_fs := fs3, executions := executions w + 1\<rparr>))
                         else
                           (Inr (name, Products prods),
                            w\<lparr>world_fs := fs2, executions := executions w + 1\<rparr>))
                  in
                  case cached of
                    None \<Rightarrow> fresh
                  | Some c \<Rightarrow>
                      if skip_cache then fresh
                      else
                        (Inr (cached_name c, Products (cached_products c)),
                         w\<lparr>world_fs := fs1\<rparr>))))"

text \<open>\<^verbatim>\<open>build\<close> passes its arguments on; \<^verbatim>\<open>do_program\<close> is not used.\<close>

definition build ::
  "lzma \<Rightarrow> (string \<Rightarrow> string \<Rightarrow> filesystem \<Rightarrow> (error + plan) \<times> filesystem) \<Rightarrow>
   platform \<Rightarrow> string \<Rightarrow> string \<Rightarrow> bool \<Rightarrow> bool \<Rightarrow> world \<Rightarrow> (error + string \<times> built) \<times> world" where
  "build lzma_cpr super_build self name build_dir do_build skip_cache w =
     build_elaboratable lzma_cpr super_build self name build_dir do_build skip_cache w"

subsection \<open>The tree the cache is meant to have\<close>

text \<open>
  The specification's side of the cache tree, to compare \<open>init_cache_dir\<close> with: the
  labels \<^verbatim>\<open>00\<close> to \<^verbatim>\<open>ff\<close>, and the complete tree of the directories that lie at
  most \<open>depth\<close> labels below \<open>root\<close>, the root included.
\<close>

definition labels :: "string set" where
  "labels = fmt_02x ` {0..<256}"

definition shard_tree :: "path \<Rightarrow> nat \<Rightarrow> path set" where
  "shard_tree root depth = {root @ ls |ls. length ls \<le> depth \<and> set ls \<subseteq> labels}"

text \<open>
  A file system is well formed when whatever exists lies in a directory.
\<close>

definition wf_fs :: "filesystem \<Rightarrow> bool" where
  "wf_fs fs = (\<forall>p. path_exists fs p \<longrightarrow> is_dir fs (parent p))"

text \<open>The body of the loop of \<open>init_dir\<close>, under a name of its own for the proofs.\<close>

definition stub_step :: "path \<Rightarrow> nat \<Rightarrow> nat \<Rightarrow> filesystem \<Rightarrow> (error + unit) \<times> filesystem" where
  "stub_step root depth = (\<lambda>i fs.
          let cache_stub = joinpath root (fmt_02x i) in
          if \<not> path_exists fs cache_stub then
            (case mkdir cache_stub fs of
               (Inl e, fs') \<Rightarrow> (Inl e, fs')
             | (Inr _, fs') \<Rightarrow> init_dir cache_stub depth fs')
          else (Inr (), fs))"

subsection \<open>A small file system\<close>

text \<open>A file system with the one directory \<^verbatim>\<open>/home\<close> and no file, to run the code on.\<close>

definition home_fs :: filesystem where
  "home_fs = \<lparr>dirs = {[''home'']}, files = Map.empty\<rparr>"

text \<open>
  Collaborators and instances to run the build on: a plan whose digest is the byte
  \<^verbatim>\<open>ab\<close> repeated and whose executor writes \<^verbatim>\<open>top.bin\<close> into the build directory, a
  plan whose executor fails, an elaboration that returns a given plan, a compressor that
  stores its input as it is, an instance \<open>hosted\<close> for which another class defines
  \<^verbatim>\<open>cache_dir\<close>, a file system \<open>cache_fs\<close> with an entry for the digest in that
  directory, and a file system \<open>built_fs\<close> with the products of a build.
\<close>

definition plan_ab :: plan where
  "plan_ab =
     \<lparr>plan_digest = (\<lambda>size. replicate size 0xab),
      plan_execute_local = (\<lambda>build_dir fs.
        (Inr (LocalBuildProducts [''home'', build_dir]),
         write_bytes [''home'', build_dir, ''top.bin''] [0x7f, 0x42, 0x49, 0x54] fs))\<rparr>"

definition plan_failing :: plan where
  "plan_failing =
     \<lparr>plan_digest = (\<lambda>size. replicate size 0xab),
      plan_execute_local = (\<lambda>build_dir fs. (Inl (Failure ''synthesis failed''), fs))\<rparr>"

definition elaborate :: "plan \<Rightarrow> string \<Rightarrow> string \<Rightarrow> filesystem \<Rightarrow> (error + plan) \<times> filesystem" where
  "elaborate p name build_dir fs = (Inr p, fs)"

definition store_lzma :: lzma where
  "store_lzma = \<lparr>compress = (\<lambda>data. data), flush = (\<lambda>data. [])\<rparr>"

definition hosted :: platform where
  "hosted = (init [''home''])\<lparr>cache_dir := Some [''home'', ''cache'']\<rparr>"

definition cache_fs :: filesystem where
  "cache_fs =
     \<lparr>dirs = {[''home''], [''home'', ''cache'']},
      files = [joinpath [''home'', ''cache''] (hex (replicate 32 0xab) @ ''.bin'') \<mapsto> [0x7f, 0x42, 0x49, 0x54]]\<rparr>"

definition built_fs :: filesystem where
  "built_fs =
     \<lparr>dirs = {[''home''], [''home'', ''build'']},
      files = [[''home'', ''build'', ''top.bin''] \<mapsto> [0x7f, 0x42, 0x49, 0x54],
               [''home'', ''build'', ''top.debug.v''] \<mapsto> [0x2f, 0x2f]]\<rparr>"

section \<open>Properties\<close>

subsection \<open>Decomposition of a digest\<close>

lemma length_decompose_digest: "length (decompose_digest d) = length d div 2"
  by (simp add: decompose_digest_def)

lemma nth_decompose_digest:
  "i < length d div 2 \<Longrightarrow> decompose_digest d ! i = take 2 (drop (2 * i) d)"
  by (simp add: decompose_digest_def slice_def mult.commute)

lemma concat_slices: "concat (map (\<lambda>i. slice d (i * 2) ((i * 2) + 2)) [0..<n]) = take (2 * n) d"
proof (induction n)
  case 0
  show ?case by simp
next
  case (Suc n)
  have "take (2 * n) d @ take 2 (drop (2 * n) d) = take (2 * n + 2) d"
    by (rule take_add [symmetric])
  with Suc show ?case
    by (simp add: slice_def mult.commute)
qed

lemma concat_decompose_digest: "concat (decompose_digest d) = take (2 * (length d div 2)) d"
  unfolding decompose_digest_def by (rule concat_slices)

lemma token_decompose_digest:
  assumes "t \<in> set (decompose_digest d)"
  shows "length t = 2 \<and> set t \<subseteq> set d"
proof -
  from assms obtain i where i: "i < length d div 2" and t: "t = take 2 (drop (2 * i) d)"
    by (auto simp: decompose_digest_def slice_def mult.commute)
  from i have "2 * i + 2 \<le> length d" by arith
  then have "length t = 2" using t by simp
  moreover have "set t \<subseteq> set d"
    unfolding t by (meson set_take_subset set_drop_subset subset_trans)
  ultimately show ?thesis by simp
qed

text \<open>
  C5. For an even-length hexadecimal string \<open>d\<close>, \<open>decompose_digest d\<close> has \<open>length d div 2\<close>
  tokens, every token is a two-character hexadecimal string, token \<open>i\<close> is made of the
  characters \<open>2 i\<close> and \<open>2 i + 1\<close> of \<open>d\<close> (the order of the digest string), and the
  concatenation of the tokens is \<open>d\<close>.
\<close>

theorem decompose_digest_even:
  assumes "even (length d)" and "list_all is_hex d"
  shows "length (decompose_digest d) = length d div 2
       \<and> list_all (\<lambda>t. length t = 2 \<and> list_all is_hex t) (decompose_digest d)
       \<and> (\<forall>i < length d div 2. decompose_digest d ! i = [d ! (2 * i), d ! (2 * i + 1)])
       \<and> concat (decompose_digest d) = d"
proof (intro conjI allI impI)
  show "length (decompose_digest d) = length d div 2"
    by (rule length_decompose_digest)
next
  have "length t = 2 \<and> list_all is_hex t" if "t \<in> set (decompose_digest d)" for t
  proof -
    from that have "length t = 2" and "set t \<subseteq> set d"
      by (simp_all add: token_decompose_digest)
    with assms(2) show ?thesis
      by (auto simp: list_all_iff)
  qed
  then show "list_all (\<lambda>t. length t = 2 \<and> list_all is_hex t) (decompose_digest d)"
    by (simp add: list_all_iff)
next
  fix i assume i: "i < length d div 2"
  then have len: "2 * i + 1 < length d" by arith
  have "take 2 (drop (2 * i) d) = [d ! (2 * i), d ! (2 * i + 1)]"
  proof (rule nth_equalityI)
    show "length (take 2 (drop (2 * i) d)) = length [d ! (2 * i), d ! (2 * i + 1)]"
      using len by simp
  next
    fix k assume "k < length (take 2 (drop (2 * i) d))"
    then have "k < 2" by simp
    then have "k = 0 \<or> k = 1" by arith
    then show "take 2 (drop (2 * i) d) ! k = [d ! (2 * i), d ! (2 * i + 1)] ! k"
      using len by auto
  qed
  with i show "decompose_digest d ! i = [d ! (2 * i), d ! (2 * i + 1)]"
    by (simp add: nth_decompose_digest)
next
  from assms(1) have "2 * (length d div 2) = length d" by simp
  then show "concat (decompose_digest d) = d"
    by (simp add: concat_decompose_digest)
qed

theorem decompose_digest_even_witness:
  "even (length ''ab12'') \<and> list_all is_hex ''ab12''
   \<and> length (decompose_digest ''ab12'') = 2
   \<and> decompose_digest ''ab12'' ! 1 = ''12''
   \<and> concat (decompose_digest ''ab12'') = ''ab12''"
proof -
  have e: "even (length ''ab12'')" by simp
  have h: "list_all is_hex ''ab12''" by (simp add: is_hex_def)
  show ?thesis
    using e h decompose_digest_even [OF e h] by simp
qed

text \<open>
  C10. For a string \<open>d\<close> of odd length (hexadecimal or not), \<open>decompose_digest d\<close> has
  \<open>length d div 2\<close> tokens and their concatenation is \<open>d\<close> without its last character:
  the last character is dropped. The function has no failing branch: a Python slice
  clips to the string and raises for no index.
\<close>

theorem decompose_digest_odd:
  assumes "odd (length d)"
  shows "length (decompose_digest d) = length d div 2
       \<and> concat (decompose_digest d) = butlast d"
proof -
  from assms have "2 * (length d div 2) = length d - 1"
    by (metis odd_two_times_div_two_nat)
  then show ?thesis
    by (simp add: length_decompose_digest concat_decompose_digest butlast_conv_take)
qed

theorem decompose_digest_odd_witness:
  "odd (length ''abc'') \<and> length (decompose_digest ''abc'') = 1
   \<and> concat (decompose_digest ''abc'') = ''ab''"
proof -
  have o: "odd (length ''abc'')" by simp
  show ?thesis
    using o decompose_digest_odd [OF o] by simp
qed

subsection \<open>The cache tree only grows\<close>

lemma for_loop_invariant:
  assumes step: "\<And>x s r s'. P s \<Longrightarrow> body x s = (r, s') \<Longrightarrow> P s'"
    and "P s" and "for_loop xs body s = (r, s')"
  shows "P s'"
  using assms(2,3)
proof (induction xs arbitrary: s)
  case Nil
  then show ?case by simp
next
  case (Cons x xs)
  obtain r1 s1 where b: "body x s = (r1, s1)" by (cases "body x s")
  have P1: "P s1" using step [OF Cons.prems(1) b] .
  show ?case
  proof (cases r1)
    case (Inl e)
    with Cons.prems(2) b have "s' = s1" by simp
    with P1 show ?thesis by simp
  next
    case (Inr u)
    with Cons.prems(2) b have "for_loop xs body s1 = (r, s')" by simp
    with Cons.IH P1 show ?thesis by blast
  qed
qed

lemma mkdir_grows:
  "mkdir p fs = (r, fs') \<Longrightarrow> files fs' = files fs \<and> dirs fs \<subseteq> dirs fs'"
  by (auto simp: mkdir_def split: if_splits)

lemma init_dir_grows:
  "init_dir root depth fs = (r, fs') \<Longrightarrow> files fs' = files fs \<and> dirs fs \<subseteq> dirs fs'"
proof (induction depth arbitrary: root fs r fs')
  case 0
  then show ?case by simp
next
  case (Suc depth)
  let ?body = "\<lambda>i fs.
          let cache_stub = joinpath root (fmt_02x i) in
          if \<not> path_exists fs cache_stub then
            (case mkdir cache_stub fs of
               (Inl e, fs') \<Rightarrow> (Inl e, fs')
             | (Inr _, fs') \<Rightarrow> init_dir cache_stub depth fs')
          else (Inr (), fs)"
  let ?P = "\<lambda>s. files s = files fs \<and> dirs fs \<subseteq> dirs s"
  have loop: "for_loop [0..<256] ?body fs = (r, fs')"
    using Suc.prems by (simp only: init_dir.simps)
  have step: "?P s'" if "?P s" and "?body x s = (r, s')" for x s r s'
  proof (cases "path_exists s (joinpath root (fmt_02x x))")
    case True
    with that show ?thesis by simp
  next
    case False
    obtain r1 s1 where m: "mkdir (joinpath root (fmt_02x x)) s = (r1, s1)"
      by (cases "mkdir (joinpath root (fmt_02x x)) s")
    from mkdir_grows [OF m] that(1) have P1: "?P s1" by auto
    show ?thesis
    proof (cases r1)
      case (Inl e)
      with that(2) False m have "s' = s1" by simp
      with P1 show ?thesis by simp
    next
      case (Inr u)
      with that(2) False m have "init_dir (joinpath root (fmt_02x x)) depth s1 = (r, s')"
        by simp
      from Suc.IH [OF this] P1 show ?thesis by auto
    qed
  qed
  show ?case
  proof (rule for_loop_invariant [where P = ?P and body = ?body, OF _ _ loop])
    show "?P fs" by simp
  next
    fix x s r s'
    assume "?P s" and "?body x s = (r, s')"
    then show "?P s'" by (rule step)
  qed
qed

lemma init_cache_dir_grows:
  "init_cache_dir self fs = (r, fs') \<Longrightarrow> files fs' = files fs \<and> dirs fs \<subseteq> dirs fs'"
proof (cases "path_exists fs (u_cache_root self)")
  case True
  assume "init_cache_dir self fs = (r, fs')"
  with True show ?thesis by (simp add: init_cache_dir_def)
next
  case False
  assume a: "init_cache_dir self fs = (r, fs')"
  obtain r1 s1 where m: "mkdir (u_cache_root self) fs = (r1, s1)"
    by (cases "mkdir (u_cache_root self) fs")
  note g = mkdir_grows [OF m]
  show ?thesis
  proof (cases r1)
    case (Inl e)
    with a False m have "fs' = s1" by (simp add: init_cache_dir_def)
    with g show ?thesis by simp
  next
    case (Inr u)
    with a False m have "init_dir (u_cache_root self) (cache_depth self) s1 = (r, fs')"
      by (simp add: init_cache_dir_def)
    from init_dir_grows [OF this] g show ?thesis by auto
  qed
qed

subsection \<open>Labels and the complete tree\<close>

lemma hex_digits_small: "n < 16 \<Longrightarrow> hex_digits n = [hexdigit n]"
  by simp

lemma fmt_02x_byte:
  assumes "i < 256"
  shows "fmt_02x i = [hexdigit (i div 16), hexdigit (i mod 16)]"
proof (cases "i < 16")
  case True
  then have "hex_digits i = [hexdigit i]" by simp
  moreover have "hexdigit 0 = CHR ''0''" by (simp add: hexdigit_def)
  ultimately show ?thesis using True by (simp add: fmt_02x_def)
next
  case False
  from assms have "i div 16 < 16" by arith
  then have "hex_digits (i div 16) = [hexdigit (i div 16)]" by simp
  with False have "hex_digits i = [hexdigit (i div 16), hexdigit (i mod 16)]"
    by (subst hex_digits.simps) simp
  then show ?thesis by (simp add: fmt_02x_def)
qed

lemma hexdigit_inj:
  assumes "m < 16" and "n < 16" and "hexdigit m = hexdigit n"
  shows "m = n"
proof -
  have d: "distinct ''0123456789abcdef''" by simp
  have l: "length ''0123456789abcdef'' = 16" by simp
  from assms show ?thesis
    unfolding hexdigit_def using d l by (metis nth_eq_iff_index_eq)
qed

lemma fmt_02x_inj:
  assumes "i < 256" and "j < 256" and "fmt_02x i = fmt_02x j"
  shows "i = j"
proof -
  from assms have "hexdigit (i div 16) = hexdigit (j div 16)"
    and "hexdigit (i mod 16) = hexdigit (j mod 16)"
    by (simp_all add: fmt_02x_byte)
  moreover from assms have "i div 16 < 16" "j div 16 < 16" "i mod 16 < 16" "j mod 16 < 16"
    by arith+
  ultimately have "i div 16 = j div 16" and "i mod 16 = j mod 16"
    by (auto intro: hexdigit_inj)
  then show ?thesis by (metis div_mult_mod_eq)
qed

lemma path_exists_iff: "path_exists fs p \<longleftrightarrow> p = [] \<or> p \<in> dirs fs \<or> files fs p \<noteq> None"
  by (auto simp: path_exists_def is_dir_def is_file_def)

lemma shard_tree_0: "shard_tree root 0 = {root}"
  by (auto simp: shard_tree_def)

lemma shard_tree_Suc:
  "shard_tree root (Suc d) = insert root (\<Union>l \<in> labels. shard_tree (root @ [l]) d)"
proof (intro set_eqI iffI)
  fix p assume "p \<in> shard_tree root (Suc d)"
  then obtain ls where p: "p = root @ ls" and len: "length ls \<le> Suc d" and sub: "set ls \<subseteq> labels"
    by (auto simp: shard_tree_def)
  show "p \<in> insert root (\<Union>l \<in> labels. shard_tree (root @ [l]) d)"
  proof (cases ls)
    case Nil
    with p show ?thesis by simp
  next
    case (Cons l ls')
    with len sub have "l \<in> labels" "length ls' \<le> d" "set ls' \<subseteq> labels" by auto
    moreover from p Cons have "p = (root @ [l]) @ ls'" by simp
    ultimately have "p \<in> shard_tree (root @ [l]) d"
      unfolding shard_tree_def by blast
    with \<open>l \<in> labels\<close> show ?thesis by blast
  qed
next
  fix p assume "p \<in> insert root (\<Union>l \<in> labels. shard_tree (root @ [l]) d)"
  then consider "p = root" | l ls where "l \<in> labels" "p = (root @ [l]) @ ls" "length ls \<le> d" "set ls \<subseteq> labels"
    by (auto simp: shard_tree_def)
  then show "p \<in> shard_tree root (Suc d)"
  proof cases
    case 1
    then have "p = root @ [] \<and> length ([]::string list) \<le> Suc d \<and> set ([]::string list) \<subseteq> labels" by simp
    then show ?thesis unfolding shard_tree_def by blast
  next
    case 2
    then have "p = root @ (l # ls) \<and> length (l # ls) \<le> Suc d \<and> set (l # ls) \<subseteq> labels" by simp
    then show ?thesis unfolding shard_tree_def by blast
  qed
qed

lemma root_in_shard_tree: "root \<in> shard_tree root d"
proof -
  have "root = root @ [] \<and> length ([]::string list) \<le> d \<and> set ([]::string list) \<subseteq> labels" by simp
  then show ?thesis unfolding shard_tree_def by blast
qed

lemma shard_tree_prefix: "p \<in> shard_tree root d \<Longrightarrow> \<exists>ls. p = root @ ls"
  by (auto simp: shard_tree_def)

subsection \<open>Initialisation builds the complete tree\<close>

lemma fs_dirs_absorb: "A \<subseteq> dirs fs \<Longrightarrow> fs\<lparr>dirs := dirs fs \<union> A\<rparr> = fs"
  by (simp add: Un_absorb2)

lemma mkdir_ok:
  "\<not> path_exists fs p \<Longrightarrow> is_dir fs (parent p) \<Longrightarrow>
   mkdir p fs = (Inr (), fs\<lparr>dirs := insert p (dirs fs)\<rparr>)"
  by (simp add: mkdir_def)

lemma init_dir_Suc: "init_dir root (Suc depth) fs = for_loop [0..<256] (stub_step root depth) fs"
  unfolding stub_step_def by (simp only: init_dir.simps)

lemma loop_fresh:
  assumes IH: "\<And>r s. r \<in> dirs s \<Longrightarrow> (\<forall>q. q \<noteq> [] \<longrightarrow> \<not> path_exists s (r @ q)) \<Longrightarrow>
                 init_dir r d s = (Inr (), s\<lparr>dirs := dirs s \<union> shard_tree r d\<rparr>)"
    and "root \<in> dirs s" and "distinct js" and "\<forall>j \<in> set js. j < 256"
    and "\<forall>j \<in> set js. \<forall>q. \<not> path_exists s (root @ fmt_02x j # q)"
  shows "for_loop js (stub_step root d) s =
           (Inr (), s\<lparr>dirs := dirs s \<union> (\<Union>j \<in> set js. shard_tree (root @ [fmt_02x j]) d)\<rparr>)"
  using assms(2-)
proof (induction js arbitrary: s)
  case Nil
  then show ?case by simp
next
  case (Cons i js)
  let ?stub = "root @ [fmt_02x i]"
  let ?s1 = "s\<lparr>dirs := insert ?stub (dirs s)\<rparr>"
  let ?s2 = "s\<lparr>dirs := dirs s \<union> shard_tree ?stub d\<rparr>"
  have i: "i < 256" using Cons.prems(3) by simp
  have nostub: "\<not> path_exists s (?stub @ q)" for q
    using Cons.prems(4) by simp
  from nostub [of "[]"] have ne: "\<not> path_exists s ?stub" by simp
  have par: "is_dir s (parent ?stub)"
    using Cons.prems(1) by (simp add: parent_def is_dir_def)
  have mk: "mkdir ?stub s = (Inr (), ?s1)"
    using ne par by (rule mkdir_ok)
  have fresh1: "\<forall>q. q \<noteq> [] \<longrightarrow> \<not> path_exists ?s1 (?stub @ q)"
    using nostub by (auto simp: path_exists_iff)
  have "init_dir ?stub d ?s1 = (Inr (), ?s1\<lparr>dirs := dirs ?s1 \<union> shard_tree ?stub d\<rparr>)"
    by (rule IH) (use fresh1 in simp_all)
  moreover have "?s1\<lparr>dirs := dirs ?s1 \<union> shard_tree ?stub d\<rparr> = ?s2"
    using root_in_shard_tree [of ?stub d] by (simp add: insert_absorb)
  ultimately have rec: "init_dir ?stub d ?s1 = (Inr (), ?s2)" by simp
  have step: "stub_step root d i s = (Inr (), ?s2)"
    using ne mk rec by (simp add: stub_step_def joinpath_def)
  have root2: "root \<in> dirs ?s2" using Cons.prems(1) by simp
  have fresh2: "\<forall>j \<in> set js. \<forall>q. \<not> path_exists ?s2 (root @ fmt_02x j # q)"
  proof (intro ballI allI)
    fix j q assume j: "j \<in> set js"
    then have "j \<noteq> i" and "j < 256" using Cons.prems(2,3) by auto
    with i have neq: "fmt_02x j \<noteq> fmt_02x i" using fmt_02x_inj by blast
    have old: "\<not> path_exists s (root @ fmt_02x j # q)"
      using Cons.prems(4) j by simp
    have "root @ fmt_02x j # q \<notin> shard_tree ?stub d"
    proof
      assume "root @ fmt_02x j # q \<in> shard_tree ?stub d"
      then obtain ls where "root @ fmt_02x j # q = ?stub @ ls"
        using shard_tree_prefix by blast
      with neq show False by simp
    qed
    with old show "\<not> path_exists ?s2 (root @ fmt_02x j # q)"
      by (simp add: path_exists_iff)
  qed
  have "for_loop js (stub_step root d) ?s2 =
          (Inr (), ?s2\<lparr>dirs := dirs ?s2 \<union> (\<Union>j \<in> set js. shard_tree (root @ [fmt_02x j]) d)\<rparr>)"
    using Cons.IH [OF root2 _ _ fresh2] Cons.prems(2,3) by simp
  moreover have "?s2\<lparr>dirs := dirs ?s2 \<union> (\<Union>j \<in> set js. shard_tree (root @ [fmt_02x j]) d)\<rparr>
      = s\<lparr>dirs := dirs s \<union> (\<Union>j \<in> set (i # js). shard_tree (root @ [fmt_02x j]) d)\<rparr>"
    by (simp add: Un_assoc)
  ultimately show ?case using step by simp
qed

lemma init_dir_fresh:
  "root \<in> dirs fs \<Longrightarrow> (\<forall>q. q \<noteq> [] \<longrightarrow> \<not> path_exists fs (root @ q)) \<Longrightarrow>
   init_dir root depth fs = (Inr (), fs\<lparr>dirs := dirs fs \<union> shard_tree root depth\<rparr>)"
proof (induction depth arbitrary: root fs)
  case 0
  then show ?case by (simp add: shard_tree_0 insert_absorb)
next
  case (Suc depth)
  have "for_loop [0..<256] (stub_step root depth) fs =
          (Inr (), fs\<lparr>dirs := dirs fs \<union> (\<Union>j \<in> set [0..<256]. shard_tree (root @ [fmt_02x j]) depth)\<rparr>)"
  proof (rule loop_fresh)
    show "init_dir r depth s = (Inr (), s\<lparr>dirs := dirs s \<union> shard_tree r depth\<rparr>)"
      if "r \<in> dirs s" and "\<forall>q. q \<noteq> [] \<longrightarrow> \<not> path_exists s (r @ q)" for r s
      using that by (rule Suc.IH)
    show "root \<in> dirs fs" by (rule Suc.prems(1))
    show "distinct [0..<256]" by (rule distinct_upt)
    show "\<forall>j \<in> set [0..<256]. j < 256" by (simp only: set_upt atLeastLessThan_iff ball_simps) simp
    show "\<forall>j \<in> set [0..<256]. \<forall>q. \<not> path_exists fs (root @ fmt_02x j # q)"
      using Suc.prems(2) by blast
  qed
  moreover have "(\<Union>j \<in> set [0..<256]. shard_tree (root @ [fmt_02x j]) depth)
                 = (\<Union>l \<in> labels. shard_tree (root @ [l]) depth)"
    unfolding labels_def by (simp only: set_upt) blast
  moreover have "dirs fs \<union> (\<Union>l \<in> labels. shard_tree (root @ [l]) depth)
                 = dirs fs \<union> shard_tree root (Suc depth)"
    using Suc.prems(1) by (auto simp: shard_tree_Suc)
  ultimately show ?case by (simp only: init_dir_Suc)
qed

lemma wf_fs_fresh:
  assumes "wf_fs fs" and "\<not> path_exists fs root"
  shows "\<not> path_exists fs (root @ q)"
proof (induction q rule: rev_induct)
  case Nil
  with assms(2) show ?case by simp
next
  case (snoc x q)
  show ?case
  proof
    assume "path_exists fs (root @ q @ [x])"
    with assms(1) have "is_dir fs (parent (root @ q @ [x]))"
      unfolding wf_fs_def by blast
    then have "is_dir fs (root @ q)"
      by (simp add: parent_def butlast_append)
    then have "path_exists fs (root @ q)" by (simp add: path_exists_def)
    with snoc show False by simp
  qed
qed

lemma init_cache_dir_fresh:
  assumes "wf_fs fs" and "\<not> path_exists fs (u_cache_root self)"
    and "is_dir fs (parent (u_cache_root self))"
  shows "init_cache_dir self fs =
           (Inr (), fs\<lparr>dirs := dirs fs \<union> shard_tree (u_cache_root self) (cache_depth self)\<rparr>)"
proof -
  let ?root = "u_cache_root self"
  let ?s1 = "fs\<lparr>dirs := insert ?root (dirs fs)\<rparr>"
  have mk: "mkdir ?root fs = (Inr (), ?s1)"
    using assms(2,3) by (rule mkdir_ok)
  have "\<forall>q. q \<noteq> [] \<longrightarrow> \<not> path_exists ?s1 (?root @ q)"
    using wf_fs_fresh [OF assms(1,2)] by (auto simp: path_exists_iff)
  then have "init_dir ?root (cache_depth self) ?s1 =
          (Inr (), ?s1\<lparr>dirs := dirs ?s1 \<union> shard_tree ?root (cache_depth self)\<rparr>)"
    by (intro init_dir_fresh) simp_all
  moreover have "?s1\<lparr>dirs := dirs ?s1 \<union> shard_tree ?root (cache_depth self)\<rparr>
                 = fs\<lparr>dirs := dirs fs \<union> shard_tree ?root (cache_depth self)\<rparr>"
    using root_in_shard_tree [of ?root "cache_depth self"] by (simp add: insert_absorb)
  ultimately show ?thesis
    using assms(2) mk by (simp add: init_cache_dir_def)
qed

lemma init_cache_dir_noop:
  "path_exists fs (u_cache_root self) \<Longrightarrow> init_cache_dir self fs = (Inr (), fs)"
  by (simp add: init_cache_dir_def)

lemma init_cache_dir_root_exists:
  assumes "init_cache_dir self fs = (Inr u, fs')"
  shows "path_exists fs' (u_cache_root self)"
proof (cases "path_exists fs (u_cache_root self)")
  case True
  with assms show ?thesis by (simp add: init_cache_dir_def)
next
  case False
  obtain r1 s1 where m: "mkdir (u_cache_root self) fs = (r1, s1)"
    by (cases "mkdir (u_cache_root self) fs")
  show ?thesis
  proof (cases r1)
    case (Inl e)
    with assms False m show ?thesis by (simp add: init_cache_dir_def)
  next
    case (Inr v)
    with m have "u_cache_root self \<in> dirs s1"
      by (auto simp: mkdir_def split: if_splits)
    moreover from assms False m Inr
    have "init_dir (u_cache_root self) (cache_depth self) s1 = (Inr u, fs')"
      by (simp add: init_cache_dir_def)
    then have "dirs s1 \<subseteq> dirs fs'" using init_dir_grows by blast
    ultimately show ?thesis by (auto simp: path_exists_iff)
  qed
qed

lemma hexdigit_mem: "n < 16 \<Longrightarrow> hexdigit n \<in> set ''0123456789abcdef''"
  unfolding hexdigit_def by (rule nth_mem) simp

lemma labels_eq:
  "labels = {[a, b] |a b. a \<in> set ''0123456789abcdef'' \<and> b \<in> set ''0123456789abcdef''}"
proof (intro set_eqI iffI)
  fix l assume "l \<in> labels"
  then obtain i where i: "i < 256" and l: "l = fmt_02x i"
    by (auto simp: labels_def)
  from i have "i div 16 < 16" and "i mod 16 < 16" by arith+
  then have "hexdigit (i div 16) \<in> set ''0123456789abcdef''"
    and "hexdigit (i mod 16) \<in> set ''0123456789abcdef''"
    by (simp_all only: hexdigit_mem)
  moreover from i l have "l = [hexdigit (i div 16), hexdigit (i mod 16)]"
    by (simp add: fmt_02x_byte)
  ultimately show "l \<in> {[a, b] |a b. a \<in> set ''0123456789abcdef'' \<and> b \<in> set ''0123456789abcdef''}"
    by blast
next
  fix l assume "l \<in> {[a, b] |a b. a \<in> set ''0123456789abcdef'' \<and> b \<in> set ''0123456789abcdef''}"
  then obtain a b where l: "l = [a, b]"
    and a: "a \<in> set ''0123456789abcdef''" and b: "b \<in> set ''0123456789abcdef''"
    by blast
  have len: "length ''0123456789abcdef'' = 16" by simp
  from a obtain m where m: "m < 16" "a = hexdigit m"
    unfolding hexdigit_def by (metis in_set_conv_nth len)
  from b obtain n where n: "n < 16" "b = hexdigit n"
    unfolding hexdigit_def by (metis in_set_conv_nth len)
  let ?i = "16 * m + n"
  from m n have "?i < 256" "?i div 16 = m" "?i mod 16 = n" by simp_all
  with l m n have "l = fmt_02x ?i" by (simp add: fmt_02x_byte)
  with \<open>?i < 256\<close> show "l \<in> labels" unfolding labels_def by (metis atLeastLessThan_iff imageI le0)
qed

lemma wf_home_fs: "wf_fs home_fs"
  by (auto simp: wf_fs_def home_fs_def path_exists_iff is_dir_def parent_def)

text \<open>
  C6. On a well-formed file system: when the root of the cache does not exist and its
  parent directory does, \<open>init_cache_dir\<close> succeeds and the directories it leaves are
  the ones that were there and the complete tree \<open>shard_tree\<close> of the root, every
  sequence of at most \<open>cache_depth\<close> labels below it; when the root exists the call
  changes nothing; so a second call after a successful one changes nothing. The labels
  are the 256 strings of two lowercase hexadecimal digits.
\<close>

theorem init_cache_dir_tree:
  assumes "wf_fs fs"
  shows "(\<not> path_exists fs (u_cache_root self) \<and> is_dir fs (parent (u_cache_root self)) \<longrightarrow>
            init_cache_dir self fs =
              (Inr (), fs\<lparr>dirs := dirs fs \<union> shard_tree (u_cache_root self) (cache_depth self)\<rparr>))
       \<and> (path_exists fs (u_cache_root self) \<longrightarrow> init_cache_dir self fs = (Inr (), fs))
       \<and> (\<forall>fs'. init_cache_dir self fs = (Inr (), fs') \<longrightarrow> init_cache_dir self fs' = (Inr (), fs'))
       \<and> labels = {[a, b] |a b. a \<in> set ''0123456789abcdef'' \<and> b \<in> set ''0123456789abcdef''}"
proof (intro conjI impI allI)
  assume "\<not> path_exists fs (u_cache_root self) \<and> is_dir fs (parent (u_cache_root self))"
  with assms show "init_cache_dir self fs =
      (Inr (), fs\<lparr>dirs := dirs fs \<union> shard_tree (u_cache_root self) (cache_depth self)\<rparr>)"
    by (simp add: init_cache_dir_fresh)
next
  assume "path_exists fs (u_cache_root self)"
  then show "init_cache_dir self fs = (Inr (), fs)" by (rule init_cache_dir_noop)
next
  fix fs' assume "init_cache_dir self fs = (Inr (), fs')"
  then have "path_exists fs' (u_cache_root self)" by (rule init_cache_dir_root_exists)
  then show "init_cache_dir self fs' = (Inr (), fs')" by (rule init_cache_dir_noop)
next
  show "labels = {[a, b] |a b. a \<in> set ''0123456789abcdef'' \<and> b \<in> set ''0123456789abcdef''}"
    by (rule labels_eq)
qed

theorem init_cache_dir_tree_witness:
  "wf_fs home_fs
   \<and> \<not> path_exists home_fs (u_cache_root (init [''home'']))
   \<and> is_dir home_fs (parent (u_cache_root (init [''home''])))
   \<and> init_cache_dir (init [''home'']) home_fs =
       (Inr (), home_fs\<lparr>dirs := dirs home_fs \<union> shard_tree [''home'', ''.torii_cache''] 1\<rparr>)
   \<and> init_cache_dir (init [''home''])
        (home_fs\<lparr>dirs := dirs home_fs \<union> shard_tree [''home'', ''.torii_cache''] 1\<rparr>) =
       (Inr (), home_fs\<lparr>dirs := dirs home_fs \<union> shard_tree [''home'', ''.torii_cache''] 1\<rparr>)
   \<and> [''home'', ''.torii_cache'', ''ff''] \<in> shard_tree [''home'', ''.torii_cache''] 1"
proof -
  let ?self = "init [''home'']"
  have root: "u_cache_root ?self = [''home'', ''.torii_cache'']"
    and depth: "cache_depth ?self = 1"
    by (simp_all add: init_def joinpath_def cache_depth_def)
  have w: "wf_fs home_fs" by (rule wf_home_fs)
  have ne: "\<not> path_exists home_fs (u_cache_root ?self)"
    unfolding root by (simp add: home_fs_def path_exists_iff)
  have pd: "is_dir home_fs (parent (u_cache_root ?self))"
    unfolding root by (simp add: home_fs_def is_dir_def parent_def)
  note t = init_cache_dir_tree [OF w, of ?self]
  from t ne pd have first: "init_cache_dir ?self home_fs =
       (Inr (), home_fs\<lparr>dirs := dirs home_fs \<union> shard_tree [''home'', ''.torii_cache''] 1\<rparr>)"
    unfolding root depth by blast
  with t have second: "init_cache_dir ?self
        (home_fs\<lparr>dirs := dirs home_fs \<union> shard_tree [''home'', ''.torii_cache''] 1\<rparr>) =
       (Inr (), home_fs\<lparr>dirs := dirs home_fs \<union> shard_tree [''home'', ''.torii_cache''] 1\<rparr>)"
    by blast
  from t have lab: "labels =
      {[a, b] |a b. a \<in> set ''0123456789abcdef'' \<and> b \<in> set ''0123456789abcdef''}"
    by (elim conjE)
  have "''ff'' \<in> labels"
    unfolding lab by simp
  then have "[''home'', ''.torii_cache''] @ [''ff''] \<in> shard_tree [''home'', ''.torii_cache''] 1"
    unfolding shard_tree_def by (intro CollectI exI [of _ "[''ff'']"]) simp
  then have leaf: "[''home'', ''.torii_cache'', ''ff''] \<in> shard_tree [''home'', ''.torii_cache''] 1"
    by simp
  from w ne pd first second leaf show ?thesis by blast
qed



subsection \<open>Formatting, by example\<close>

lemma fmt_02x_examples: "fmt_02x 0 = ''00''" "fmt_02x 10 = ''0a''" "fmt_02x 255 = ''ff''"
  by (simp_all add: fmt_02x_def hexdigit_def)

lemma hex_example: "hex [0xab, 0x12] = ''ab12''"
  by (simp add: hex_def fmt_02x_def hexdigit_def)


subsection \<open>The attributes the mixin does not define\<close>

lemma get_from_cache_fs: "snd (get_from_cache self digest fs) = fs"
  by (simp add: get_from_cache_def Let_def split: option.splits)

lemma get_from_cache_no_attr:
  "cache_dir self = None \<Longrightarrow> get_from_cache self digest fs = (Inl AttributeError, fs)"
  by (simp add: get_from_cache_def)

lemma store_to_cache_no_attr:
  "cache_dir self = None \<Longrightarrow> store_to_cache lz self digest prods name fs = (Inl AttributeError, fs)"
  by (simp add: store_to_cache_def)

lemma get_cache_dir_no_attr:
  "tree_depth self = None \<Longrightarrow>
   get_cache_dir self digest fs =
     (case init_cache_dir self fs of
        (Inl e, fs') \<Rightarrow> (Inl e, fs')
      | (Inr u, fs') \<Rightarrow> (Inl AttributeError, fs'))"
  by (simp add: get_cache_dir_def cache_root_def split: prod.splits sum.splits)

lemma get_cache_dir_files:
  assumes "tree_depth self = None"
  shows "files (snd (get_cache_dir self digest fs)) = files fs
       \<and> dirs fs \<subseteq> dirs (snd (get_cache_dir self digest fs))
       \<and> (\<exists>e. fst (get_cache_dir self digest fs) = Inl e)"
proof -
  obtain r fs' where i: "init_cache_dir self fs = (r, fs')"
    by (cases "init_cache_dir self fs")
  from init_cache_dir_grows [OF i] have g: "files fs' = files fs" "dirs fs \<subseteq> dirs fs'" by simp_all
  from i assms have "snd (get_cache_dir self digest fs) = fs'"
    and "\<exists>e. fst (get_cache_dir self digest fs) = Inl e"
    by (auto simp: get_cache_dir_no_attr split: sum.splits)
  with g show ?thesis by simp
qed

lemma init_home:
  "u_cache_root (init [''home'']) = [''home'', ''.torii_cache'']"
  "cache_depth (init [''home'']) = 1"
  "cache_dir (init [''home'']) = None"
  "tree_depth (init [''home'']) = None"
  by (simp_all add: init_def joinpath_def cache_depth_def)

lemma init_cache_dir_home:
  "init_cache_dir (init [''home'']) home_fs =
     (Inr (), home_fs\<lparr>dirs := dirs home_fs \<union> shard_tree [''home'', ''.torii_cache''] 1\<rparr>)"
proof -
  have "\<not> path_exists home_fs (u_cache_root (init [''home'']))"
    unfolding init_home by (simp add: home_fs_def path_exists_iff)
  moreover have "is_dir home_fs (parent (u_cache_root (init [''home''])))"
    unfolding init_home by (simp add: home_fs_def is_dir_def parent_def)
  ultimately show ?thesis
    using init_cache_dir_fresh [OF wf_home_fs, of "init [''home'']"] by (simp add: init_home)
qed

lemma get_cache_dir_home:
  "get_cache_dir (init [''home'']) digest home_fs =
     (Inl AttributeError, home_fs\<lparr>dirs := dirs home_fs \<union> shard_tree [''home'', ''.torii_cache''] 1\<rparr>)"
  by (simp add: get_cache_dir_no_attr init_home init_cache_dir_home)

text \<open>
  C3, as stated, fails for \<open>get_cache_dir\<close>: it does not raise before it touches the
  file system. On an instance made by \<open>init\<close> in \<^verbatim>\<open>/home\<close>, where no cache exists yet,
  the property \<^verbatim>\<open>cache_root\<close> has created the root of the cache by the time the
  read of \<^verbatim>\<open>tree_depth\<close> raises.
\<close>

theorem get_cache_dir_touches_fs:
  "get_cache_dir (init [''home'']) ''ab12'' home_fs \<noteq> (Inl AttributeError, home_fs)
   \<and> [''home'', ''.torii_cache''] \<in> dirs (snd (get_cache_dir (init [''home'']) ''ab12'' home_fs))
   \<and> [''home'', ''.torii_cache''] \<notin> dirs home_fs"
proof -
  have in_new: "[''home'', ''.torii_cache''] \<in> dirs (snd (get_cache_dir (init [''home'']) ''ab12'' home_fs))"
    using root_in_shard_tree [of "[''home'', ''.torii_cache'']" 1] by (simp add: get_cache_dir_home)
  have not_old: "[''home'', ''.torii_cache''] \<notin> dirs home_fs"
    by (simp add: home_fs_def)
  from in_new not_old have "snd (get_cache_dir (init [''home'']) ''ab12'' home_fs) \<noteq> home_fs"
    by auto
  then have "get_cache_dir (init [''home'']) ''ab12'' home_fs \<noteq> (Inl AttributeError, home_fs)"
    by auto
  with in_new not_old show ?thesis by simp
qed

text \<open>
  C3, amended. On an instance where no class defines \<^verbatim>\<open>cache_dir\<close> and
  \<^verbatim>\<open>tree_depth\<close>: \<open>get_from_cache\<close> and \<open>store_to_cache\<close> raise \<open>AttributeError\<close>
  and leave the file system as it is; \<open>get_cache_dir\<close> first initialises the cache tree
  through the property \<^verbatim>\<open>cache_root\<close>, passes on the error of a failed initialisation
  and raises \<open>AttributeError\<close> otherwise; it always raises, and it changes no file.
\<close>

theorem attribute_errors:
  assumes "cache_dir self = None" and "tree_depth self = None"
  shows "get_from_cache self digest fs = (Inl AttributeError, fs)
       \<and> store_to_cache lzma_cpr self digest prods name fs = (Inl AttributeError, fs)
       \<and> get_cache_dir self digest fs =
           (case init_cache_dir self fs of
              (Inl e, fs') \<Rightarrow> (Inl e, fs')
            | (Inr u, fs') \<Rightarrow> (Inl AttributeError, fs'))
       \<and> (\<exists>e. fst (get_cache_dir self digest fs) = Inl e)
       \<and> files (snd (get_cache_dir self digest fs)) = files fs"
proof (intro conjI)
  show "get_from_cache self digest fs = (Inl AttributeError, fs)"
    using assms(1) by (rule get_from_cache_no_attr)
  show "store_to_cache lzma_cpr self digest prods name fs = (Inl AttributeError, fs)"
    using assms(1) by (rule store_to_cache_no_attr)
  show "get_cache_dir self digest fs =
           (case init_cache_dir self fs of
              (Inl e, fs') \<Rightarrow> (Inl e, fs')
            | (Inr u, fs') \<Rightarrow> (Inl AttributeError, fs'))"
    using assms(2) by (rule get_cache_dir_no_attr)
  show "\<exists>e. fst (get_cache_dir self digest fs) = Inl e"
    using get_cache_dir_files [OF assms(2)] by blast
  show "files (snd (get_cache_dir self digest fs)) = files fs"
    using get_cache_dir_files [OF assms(2)] by blast
qed

theorem attribute_errors_witness:
  "cache_dir (init [''home'']) = None \<and> tree_depth (init [''home'']) = None
   \<and> get_from_cache (init [''home'']) ''ab12'' home_fs = (Inl AttributeError, home_fs)
   \<and> store_to_cache store_lzma (init [''home'']) ''ab12'' (LocalBuildProducts [''home'', ''build''])
        ''top'' home_fs = (Inl AttributeError, home_fs)
   \<and> (\<exists>e. fst (get_cache_dir (init [''home'']) ''ab12'' home_fs) = Inl e)
   \<and> files (snd (get_cache_dir (init [''home'']) ''ab12'' home_fs)) = files home_fs"
proof -
  have c: "cache_dir (init [''home'']) = None" and t: "tree_depth (init [''home'']) = None"
    by (rule init_home)+
  from attribute_errors [OF c t, of "''ab12''" home_fs store_lzma "LocalBuildProducts [''home'', ''build'']" "''top''"]
  show ?thesis using c t by blast
qed

text \<open>
  C1. A store followed by a lookup is meant to give a hit with the bytes stored. On an
  instance made by \<open>init\<close>, with products that do hold \<^verbatim>\<open>top.bin\<close>, both calls raise
  \<open>AttributeError\<close> on \<^verbatim>\<open>self.cache_dir\<close> and nothing is stored.
\<close>

theorem store_then_lookup_raises:
  "products_get (LocalBuildProducts [''home'', ''build'']) ''top.bin'' built_fs
     = Inr [0x7f, 0x42, 0x49, 0x54]
   \<and> store_to_cache store_lzma (init [''home'']) ''ab12'' (LocalBuildProducts [''home'', ''build''])
        ''top'' built_fs = (Inl AttributeError, built_fs)
   \<and> get_from_cache (init [''home'']) ''ab12'' built_fs = (Inl AttributeError, built_fs)"
  by (simp add: store_to_cache_no_attr get_from_cache_no_attr init_home built_fs_def joinpath_def)

text \<open>
  C2. A lookup of a digest that was never stored is meant to be a miss. On an instance
  made by \<open>init\<close> and a file system without files, it raises \<open>AttributeError\<close> on
  \<^verbatim>\<open>self.cache_dir\<close>.
\<close>

theorem lookup_never_stored_raises:
  "files home_fs = Map.empty
   \<and> get_from_cache (init [''home'']) ''ab12'' home_fs = (Inl AttributeError, home_fs)"
  by (simp add: get_from_cache_no_attr init_home home_fs_def)

text \<open>
  C4. \<open>get_cache_dir\<close> is meant to return the root joined with the first tokens of the
  digest. On an instance made by \<open>init\<close> it initialises the tree and then raises
  \<open>AttributeError\<close> on \<^verbatim>\<open>self.tree_depth\<close>: no path is returned.
\<close>

theorem get_cache_dir_raises:
  "get_cache_dir (init [''home'']) ''ab12'' home_fs =
     (Inl AttributeError, home_fs\<lparr>dirs := dirs home_fs \<union> shard_tree [''home'', ''.torii_cache''] 1\<rparr>)"
  by (rule get_cache_dir_home)


subsection \<open>With the attributes given\<close>

text \<open>
  For comparison, an instance for which another class does define the attributes:
  a successful store followed by a lookup is a hit with the bytes stored (for products
  that do not lie at the entry's own path), and \<open>get_cache_dir\<close> returns the root
  joined with the first \<^verbatim>\<open>tree_depth\<close> tokens of the digest.
\<close>

lemma open_wb_ok:
  assumes "open_wb p fs = (Inr u, fs1)"
  shows "fs1 = fs\<lparr>files := (files fs)(p \<mapsto> [])\<rparr>" and "\<not> is_dir fs p"
  using assms by (auto simp: open_wb_def split: if_splits)

lemma files_write_bytes:
  "files (write_bytes p data fs) = (files fs)(p \<mapsto> (case files fs p of None \<Rightarrow> [] | Some old \<Rightarrow> old) @ data)"
  and dirs_write_bytes: "dirs (write_bytes p data fs) = dirs fs"
  by (simp_all add: write_bytes_def)

lemma store_to_cache_ok:
  assumes cd: "cache_dir self = Some dir"
    and st: "store_to_cache lzma_cpr self digest prods name fs = (Inr (), fs')"
  shows "\<exists>bitstream. products_get prods (name @ ''.bin'')
              (fs\<lparr>files := (files fs)(joinpath dir (digest @ ''.bin'') \<mapsto> [])\<rparr>) = Inr bitstream
           \<and> files fs' (joinpath dir (digest @ ''.bin'')) = Some bitstream
           \<and> dirs fs' = dirs fs
           \<and> \<not> is_dir fs (joinpath dir (digest @ ''.bin''))"
proof -
  let ?bf = "joinpath dir (digest @ ''.bin'')"
  let ?rf = "joinpath dir (digest @ ''.debug.v.xz'')"
  have neq: "?rf \<noteq> ?bf" by (simp add: joinpath_def)
  obtain r1 fs1 where o1: "open_wb ?bf fs = (r1, fs1)" by (cases "open_wb ?bf fs")
  from st cd o1 obtain u where r1: "r1 = Inr u"
    by (cases r1) (auto simp: store_to_cache_def Let_def)
  note ok1 = open_wb_ok [OF o1 [unfolded r1]]
  from st cd o1 r1 obtain bitstream where g: "products_get prods (name @ ''.bin'') fs1 = Inr bitstream"
    by (cases "products_get prods (name @ ''.bin'') fs1") (auto simp: store_to_cache_def Let_def)
  let ?fs2 = "write_bytes ?bf bitstream fs1"
  have f2: "files ?fs2 ?bf = Some bitstream" and d2: "dirs ?fs2 = dirs fs"
    using ok1(1) by (simp_all add: files_write_bytes dirs_write_bytes)
  have "files fs' ?bf = Some bitstream \<and> dirs fs' = dirs fs"
  proof (cases "cache_rtl self")
    case False
    with st cd o1 r1 g have "fs' = ?fs2" by (simp add: store_to_cache_def Let_def)
    with f2 d2 show ?thesis by simp
  next
    case True
    obtain r3 fs3 where o3: "open_wb ?rf ?fs2 = (r3, fs3)" by (cases "open_wb ?rf ?fs2")
    from st cd o1 r1 g True o3 obtain v where r3: "r3 = Inr v"
      by (cases r3) (auto simp: store_to_cache_def Let_def)
    note ok3 = open_wb_ok [OF o3 [unfolded r3]]
    from st cd o1 r1 g True o3 r3 obtain rtl where
      g3: "products_get prods (name @ ''.debug.v'') fs3 = Inr rtl"
      by (cases "products_get prods (name @ ''.debug.v'') fs3") (auto simp: store_to_cache_def Let_def)
    with st cd o1 r1 g True o3 r3 have
      "fs' = write_bytes ?rf (flush lzma_cpr rtl) (write_bytes ?rf (compress lzma_cpr rtl) fs3)"
      by (simp add: store_to_cache_def Let_def)
    with ok3(1) f2 d2 neq show ?thesis
      by (simp add: files_write_bytes dirs_write_bytes)
  qed
  with g ok1 show ?thesis by auto
qed

lemma store_then_lookup_given_cache_dir:
  assumes cd: "cache_dir self = Some dir"
    and st: "store_to_cache lzma_cpr self digest (LocalBuildProducts root) name fs = (Inr (), fs')"
    and src: "products_get (LocalBuildProducts root) (name @ ''.bin'') fs = Inr bitstream"
    and apart: "joinpath root (name @ ''.bin'') \<noteq> joinpath dir (digest @ ''.bin'')"
  shows "get_from_cache self digest fs' =
           (Inr (Some \<lparr>cached_name = digest @ ''.bin'', cached_products = LocalBuildProducts dir\<rparr>), fs')"
    and "products_get (LocalBuildProducts dir) (digest @ ''.bin'') fs' = Inr bitstream"
proof -
  from store_to_cache_ok [OF cd st] obtain b where
    b: "products_get (LocalBuildProducts root) (name @ ''.bin'')
              (fs\<lparr>files := (files fs)(joinpath dir (digest @ ''.bin'') \<mapsto> [])\<rparr>) = Inr b"
    and f: "files fs' (joinpath dir (digest @ ''.bin'')) = Some b"
    by blast
  from b src apart have "b = bitstream"
    by (auto split: option.splits)
  with f have f': "files fs' (joinpath dir (digest @ ''.bin'')) = Some bitstream" by simp
  then have "path_exists fs' (joinpath dir (digest @ ''.bin''))"
    by (simp add: path_exists_iff)
  with cd show "get_from_cache self digest fs' =
           (Inr (Some \<lparr>cached_name = digest @ ''.bin'', cached_products = LocalBuildProducts dir\<rparr>), fs')"
    by (simp add: get_from_cache_def Let_def)
  from f' show "products_get (LocalBuildProducts dir) (digest @ ''.bin'') fs' = Inr bitstream"
    by simp
qed

lemma get_cache_dir_given_tree_depth:
  assumes "tree_depth self = Some k" and "init_cache_dir self fs = (Inr u, fs')"
  shows "get_cache_dir self digest fs =
           (Inr (u_cache_root self @ slice_to (decompose_digest digest) k), fs')"
proof -
  have "foldl joinpath p ts = p @ ts" for p ts
    by (induction ts arbitrary: p) (simp_all add: joinpath_def)
  with assms show ?thesis
    by (simp add: get_cache_dir_def cache_root_def)
qed

subsection \<open>The build\<close>

lemma build_elaboratable_lookup:
  assumes "super_build name build_dir (world_fs w) = (Inr plan, fs0)"
    and "get_from_cache self (hex (plan_digest plan 32)) fs0 = (Inr cached, fs1)"
  shows "fs1 = fs0"
    and "build_elaboratable lzma_cpr super_build self name build_dir True skip_cache w =
      (let digest = hex (plan_digest plan 32);
           fresh =
             (case plan_execute_local plan build_dir fs0 of
                (Inl e, fs2) \<Rightarrow> (Inl e, w\<lparr>world_fs := fs2, executions := executions w + 1\<rparr>)
              | (Inr prods, fs2) \<Rightarrow>
                  if \<not> skip_cache then
                    (case store_to_cache lzma_cpr self digest prods name fs2 of
                       (Inl e, fs3) \<Rightarrow> (Inl e, w\<lparr>world_fs := fs3, executions := executions w + 1\<rparr>)
                     | (Inr _, fs3) \<Rightarrow>
                         (Inr (name, Products prods),
                          w\<lparr>world_fs := fs3, executions := executions w + 1\<rparr>))
                  else (Inr (name, Products prods),
                        w\<lparr>world_fs := fs2, executions := executions w + 1\<rparr>))
       in case cached of
            None \<Rightarrow> fresh
          | Some c \<Rightarrow>
              if skip_cache then fresh
              else (Inr (cached_name c, Products (cached_products c)), w\<lparr>world_fs := fs0\<rparr>))"
proof -
  from assms(2) get_from_cache_fs [of self "hex (plan_digest plan 32)" fs0]
  show eq: "fs1 = fs0" by simp
  with assms show "build_elaboratable lzma_cpr super_build self name build_dir True skip_cache w = (let digest = hex (plan_digest plan 32);
           fresh =
             (case plan_execute_local plan build_dir fs0 of
                (Inl e, fs2) \<Rightarrow> (Inl e, w\<lparr>world_fs := fs2, executions := executions w + 1\<rparr>)
              | (Inr prods, fs2) \<Rightarrow>
                  if \<not> skip_cache then
                    (case store_to_cache lzma_cpr self digest prods name fs2 of
                       (Inl e, fs3) \<Rightarrow> (Inl e, w\<lparr>world_fs := fs3, executions := executions w + 1\<rparr>)
                     | (Inr _, fs3) \<Rightarrow>
                         (Inr (name, Products prods),
                          w\<lparr>world_fs := fs3, executions := executions w + 1\<rparr>))
                  else (Inr (name, Products prods),
                        w\<lparr>world_fs := fs2, executions := executions w + 1\<rparr>))
       in case cached of
            None \<Rightarrow> fresh
          | Some c \<Rightarrow>
              if skip_cache then fresh
              else (Inr (cached_name c, Products (cached_products c)), w\<lparr>world_fs := fs0\<rparr>))"
    by (simp add: build_elaboratable_def)
qed

lemma get_from_cache_hit:
  assumes "get_from_cache self digest fs = (Inr (Some c), fs')"
  shows "cached_name c = digest @ ''.bin''"
    and "\<exists>dir. cache_dir self = Some dir \<and> cached_products c = LocalBuildProducts dir
           \<and> path_exists fs (joinpath dir (digest @ ''.bin''))"
  using assms
  by (auto simp: get_from_cache_def Let_def split: option.splits if_splits)

lemma build_skip_cache_after_lookup:
  assumes "super_build name build_dir (world_fs w) = (Inr plan, fs0)"
    and "get_from_cache self (hex (plan_digest plan 32)) fs0 = (Inr cached, fs1)"
    and "plan_execute_local plan build_dir fs0 = (r, fs2)"
  shows "build_elaboratable lzma_cpr super_build self name build_dir True True w =
           (map_sum id (\<lambda>prods. (name, Products prods)) r,
            w\<lparr>world_fs := fs2, executions := executions w + 1\<rparr>)"
  using build_elaboratable_lookup(2)
      [where super_build = super_build and name = name and build_dir = build_dir and w = w
         and lzma_cpr = lzma_cpr and skip_cache = True, OF assms(1,2)] assms(3)
  by (cases r) (auto simp: Let_def split: option.splits)

text \<open>
  C8. With \<^verbatim>\<open>skip_cache\<close> the build is meant to run the executor whatever the cache
  holds. The lookup comes first all the same, and on an instance made by \<open>init\<close> it
  raises \<open>AttributeError\<close>: the executor is not invoked (\<open>executions\<close> stays 0). The
  file system is not written to.
\<close>

theorem build_skip_cache_raises:
  "build_elaboratable store_lzma (elaborate plan_ab) (init [''home'']) ''top'' ''build'' True True
     \<lparr>world_fs = built_fs, executions = 0\<rparr>
   = (Inl AttributeError, \<lparr>world_fs = built_fs, executions = 0\<rparr>)"
  by (simp add: build_elaboratable_def elaborate_def get_from_cache_no_attr init_home)

text \<open>
  C7. A build with \<^verbatim>\<open>do_build\<close> true and \<^verbatim>\<open>skip_cache\<close> false whose lookup is a hit
  returns the products of the cached entry under the name \<^verbatim>\<open><digest>.bin\<close>, not the
  name it was given, and does not invoke the executor: the world it leaves is the one
  the elaboration left, with \<open>executions\<close> as before.
\<close>

theorem build_hit:
  assumes "super_build name build_dir (world_fs w) = (Inr plan, fs0)"
    and "get_from_cache self (hex (plan_digest plan 32)) fs0 = (Inr (Some c), fs1)"
  shows "build_elaboratable lzma_cpr super_build self name build_dir True False w =
           (Inr (hex (plan_digest plan 32) @ ''.bin'', Products (cached_products c)),
            w\<lparr>world_fs := fs0\<rparr>)
       \<and> executions (snd (build_elaboratable lzma_cpr super_build self name build_dir True False w))
           = executions w
       \<and> cached_name c = hex (plan_digest plan 32) @ ''.bin''"
proof -
  have n: "cached_name c = hex (plan_digest plan 32) @ ''.bin''"
    using assms(2) by (rule get_from_cache_hit)
  have "build_elaboratable lzma_cpr super_build self name build_dir True False w =
          (Inr (cached_name c, Products (cached_products c)), w\<lparr>world_fs := fs0\<rparr>)"
    using build_elaboratable_lookup(2)
      [where super_build = super_build and name = name and build_dir = build_dir and w = w
         and lzma_cpr = lzma_cpr and skip_cache = False, OF assms]
    by simp
  with n show ?thesis by simp
qed

lemma lookup_hosted_hit:
  "get_from_cache hosted (hex (plan_digest plan_ab 32)) cache_fs =
     (Inr (Some \<lparr>cached_name = hex (plan_digest plan_ab 32) @ ''.bin'',
                  cached_products = LocalBuildProducts [''home'', ''cache'']\<rparr>), cache_fs)"
  by (simp add: get_from_cache_def hosted_def cache_fs_def plan_ab_def path_exists_iff Let_def)

theorem build_hit_witness:
  "elaborate plan_ab ''top'' ''build'' (world_fs \<lparr>world_fs = cache_fs, executions = 0\<rparr>)
     = (Inr plan_ab, cache_fs)
   \<and> get_from_cache hosted (hex (plan_digest plan_ab 32)) cache_fs =
       (Inr (Some \<lparr>cached_name = hex (plan_digest plan_ab 32) @ ''.bin'',
                    cached_products = LocalBuildProducts [''home'', ''cache'']\<rparr>), cache_fs)
   \<and> build_elaboratable store_lzma (elaborate plan_ab) hosted ''top'' ''build'' True False
        \<lparr>world_fs = cache_fs, executions = 0\<rparr>
      = (Inr (hex (plan_digest plan_ab 32) @ ''.bin'', Products (LocalBuildProducts [''home'', ''cache''])),
         \<lparr>world_fs = cache_fs, executions = 0\<rparr>)"
proof -
  have e: "elaborate plan_ab ''top'' ''build'' (world_fs \<lparr>world_fs = cache_fs, executions = 0\<rparr>)
     = (Inr plan_ab, cache_fs)"
    by (simp add: elaborate_def)
  note h = lookup_hosted_hit
  from build_hit
    [where super_build = "elaborate plan_ab" and name = "''top''" and build_dir = "''build''"
       and w = "\<lparr>world_fs = cache_fs, executions = 0\<rparr>" and lzma_cpr = store_lzma, OF e h]
    e h
  show ?thesis by simp
qed

text \<open>
  C9. A build that reaches the execution step (the lookup was a miss, or
  \<^verbatim>\<open>skip_cache\<close> is set) and whose executor raises \<open>e\<close> raises \<open>e\<close> itself; the file
  system it leaves is the one the executor left, so \<open>store_to_cache\<close> has written
  nothing, and the lookup before it had changed nothing either.
\<close>

theorem build_execute_fails:
  assumes "super_build name build_dir (world_fs w) = (Inr plan, fs0)"
    and "get_from_cache self (hex (plan_digest plan 32)) fs0 = (Inr cached, fs1)"
    and "cached = None \<or> skip_cache"
    and "plan_execute_local plan build_dir fs1 = (Inl e, fs2)"
  shows "build_elaboratable lzma_cpr super_build self name build_dir True skip_cache w =
           (Inl e, w\<lparr>world_fs := fs2, executions := executions w + 1\<rparr>)
       \<and> fs1 = fs0"
proof -
  have eq: "fs1 = fs0"
    using build_elaboratable_lookup(1)
      [where super_build = super_build and name = name and build_dir = build_dir and w = w,
        OF assms(1,2)] .
  with assms(4) have x: "plan_execute_local plan build_dir fs0 = (Inl e, fs2)" by simp
  have "build_elaboratable lzma_cpr super_build self name build_dir True skip_cache w =
           (Inl e, w\<lparr>world_fs := fs2, executions := executions w + 1\<rparr>)"
    using build_elaboratable_lookup(2)
      [where super_build = super_build and name = name and build_dir = build_dir and w = w
         and lzma_cpr = lzma_cpr and skip_cache = skip_cache, OF assms(1,2)] assms(3) x
    by (auto simp: Let_def split: option.splits)
  with eq show ?thesis by simp
qed

theorem build_execute_fails_witness:
  "elaborate plan_failing ''top'' ''build'' (world_fs \<lparr>world_fs = home_fs, executions = 0\<rparr>)
     = (Inr plan_failing, home_fs)
   \<and> get_from_cache hosted (hex (plan_digest plan_failing 32)) home_fs = (Inr None, home_fs)
   \<and> plan_execute_local plan_failing ''build'' home_fs = (Inl (Failure ''synthesis failed''), home_fs)
   \<and> build_elaboratable store_lzma (elaborate plan_failing) hosted ''top'' ''build'' True False
        \<lparr>world_fs = home_fs, executions = 0\<rparr>
      = (Inl (Failure ''synthesis failed''), \<lparr>world_fs = home_fs, executions = 1\<rparr>)"
proof -
  have e: "elaborate plan_failing ''top'' ''build'' (world_fs \<lparr>world_fs = home_fs, executions = 0\<rparr>)
     = (Inr plan_failing, home_fs)"
    by (simp add: elaborate_def)
  have l: "get_from_cache hosted (hex (plan_digest plan_failing 32)) home_fs = (Inr None, home_fs)"
    by (simp add: get_from_cache_def hosted_def home_fs_def path_exists_iff joinpath_def Let_def)
  have r: "(None :: cached option) = None \<or> False" by simp
  have x: "plan_execute_local plan_failing ''build'' home_fs = (Inl (Failure ''synthesis failed''), home_fs)"
    by (simp add: plan_failing_def)
  from build_execute_fails
    [where super_build = "elaborate plan_failing" and name = "''top''" and build_dir = "''build''"
       and w = "\<lparr>world_fs = home_fs, executions = 0\<rparr>" and lzma_cpr = store_lzma, OF e l r x]
    e l x
  show ?thesis by simp
qed

end
